theory Spec2Isabelle
  imports Main
begin

section \<open>Python and SQL primitives used by the monitor\<close>

text \<open>
  A Python \<open>str\<close> is modelled as a \<open>string\<close>, each \<open>char\<close> standing for the code
  point of the same number (0 to 255). Code points above 255 are outside the model.
\<close>

definition is_space :: "char \<Rightarrow> bool" where
  \<comment> \<open>\<open>str.isspace\<close> on the code points 0 to 255: TAB to CR, FS to SPACE, NEL, NBSP.\<close>
  "is_space c =
     (let n = (of_char c :: nat)
      in (9 \<le> n \<and> n \<le> 13) \<or> (28 \<le> n \<and> n \<le> 32) \<or> n = 133 \<or> n = 160)"

definition lower_char :: "char \<Rightarrow> char" where
  \<comment> \<open>\<open>str.lower\<close> on one code point below 256: A to Z, and the Latin-1 capitals
      192 to 222 without the multiplication sign 215, move up by 32.\<close>
  "lower_char c =
     (let n = (of_char c :: nat)
      in if (65 \<le> n \<and> n \<le> 90) \<or> (192 \<le> n \<and> n \<le> 222 \<and> n \<noteq> 215)
         then char_of (n + 32) else c)"

definition lower :: "string \<Rightarrow> string" where
  "lower s = map lower_char s"

definition strip_with :: "(char \<Rightarrow> bool) \<Rightarrow> string \<Rightarrow> string" where
  \<comment> \<open>Removes the leading and the trailing characters that satisfy \<open>p\<close>.\<close>
  "strip_with p s = rev (dropWhile p (rev (dropWhile p s)))"

definition strip :: "string \<Rightarrow> string" where
  \<comment> \<open>\<open>s.strip()\<close>\<close>
  "strip s = strip_with is_space s"

definition strip_chars :: "string \<Rightarrow> string \<Rightarrow> string" where
  \<comment> \<open>\<open>s.strip(chars)\<close>\<close>
  "strip_chars chars s = strip_with (\<lambda>c. c \<in> set chars) s"

definition startswith :: "string \<Rightarrow> string \<Rightarrow> bool" where
  \<comment> \<open>\<open>s.startswith(p)\<close>\<close>
  "startswith s p = (take (length p) s = p)"

section \<open>Domain name normalization\<close>

text \<open>\<open>Database._normalize_domain\<close> (database.py).\<close>

definition Database_normalize_domain :: "string \<Rightarrow> string" where
  "Database_normalize_domain name =
     (let val = lower (strip name);
          val = (if startswith val ''http://'' then drop 7 val
                 else if startswith val ''https://'' then drop 8 val
                 else val)
      in strip_chars ''/'' val)"

text \<open>\<open>BotService._normalize_domain\<close> (bot.py), the front end's own copy.\<close>

definition BotService_normalize_domain :: "string \<Rightarrow> string" where
  "BotService_normalize_domain val =
     (let text = lower (strip val);
          text = (if startswith text ''http://'' then drop 7 text
                  else if startswith text ''https://'' then drop 8 text
                  else text)
      in strip_chars ''/'' text)"

definition edge_free :: "('a \<Rightarrow> bool) \<Rightarrow> 'a list \<Rightarrow> bool" where
  \<comment> \<open>Neither the first nor the last element satisfies \<open>p\<close>.\<close>
  "edge_free p xs = (xs = [] \<or> (\<not> p (hd xs) \<and> \<not> p (last xs)))"

section \<open>More Python and SQL primitives\<close>

fun string_of_nat :: "nat \<Rightarrow> string" where
  "string_of_nat n =
     (if n < 10 then [char_of (48 + n)]
      else string_of_nat (n div 10) @ [char_of (48 + n mod 10)])"

declare string_of_nat.simps [simp del]

definition str_int :: "int \<Rightarrow> string" where
  \<comment> \<open>\<open>str(i)\<close>, also what an f-string writes for an \<open>int\<close>\<close>
  "str_int i = (if i < 0 then ''-'' @ string_of_nat (nat (- i)) else string_of_nat (nat i))"

definition py_or :: "string option \<Rightarrow> string \<Rightarrow> string" where
  \<comment> \<open>\<open>x or d\<close> for an optional string: \<open>None\<close> and the empty string are falsy.\<close>
  "py_or x d = (case x of None \<Rightarrow> d | Some s \<Rightarrow> if s = [] then d else s)"

definition sql_lower :: "string \<Rightarrow> string" where
  \<comment> \<open>SQLite's built-in \<open>lower()\<close>: ASCII letters only.\<close>
  "sql_lower s =
     map (\<lambda>c. let n = (of_char c :: nat)
               in if 65 \<le> n \<and> n \<le> 90 then char_of (n + 32) else c) s"

fun first_max :: "('a \<Rightarrow> 'a \<Rightarrow> bool) \<Rightarrow> 'a list \<Rightarrow> 'a option" where
  \<comment> \<open>\<open>ORDER BY ... DESC LIMIT 1\<close>, \<open>lt\<close> being the strict order of the sort key. SQL leaves
      the choice among rows with equal keys open; here the earliest row wins.\<close>
  "first_max lt [] = None"
| "first_max lt (p # ps) =
     (case first_max lt ps of
        None \<Rightarrow> Some p
      | Some q \<Rightarrow> if lt p q then Some q else Some p)"

section \<open>The record store (database.py)\<close>

text \<open>
  \<open>datetime.utcnow().isoformat()\<close> is stored as text and compared as text. The fields of
  that text have a fixed width, so the texts are ordered as the instants are; a
  timestamp is modelled by the number of its instant (in microseconds). Each reading of
  the clock is an argument of the operation that reads it.
\<close>

type_synonym timestamp = nat

record domain_row =
  dom_id :: int
  dom_name :: string
  dom_is_active :: int
  dom_last_status :: "string option"
  dom_last_error :: "string option"
  dom_last_checked :: "timestamp option"

record proxy_row =
  prx_id :: int
  prx_host :: string
  prx_port :: int
  prx_username :: "string option"
  prx_password :: "string option"
  prx_country :: "string option"
  prx_is_active :: int
  prx_created_at :: timestamp

record check_log_row =
  log_id :: int
  log_domain_id :: int
  log_checked_at :: timestamp
  log_status :: string
  log_error :: "string option"

record subscriber_row =
  sub_chat_id :: int
  sub_added_at :: timestamp

text \<open>
  The two messages of \<open>NotificationService\<close>, without their wording:
  \<open>notify_downtime(domain, error)\<close> and \<open>notify_recovery(domain)\<close>.
\<close>

datatype notice = Downtime string string | Recovery string

text \<open>
  The journal lists the committed writes and the messages handed to the bot in the order
  in which they happen; the tables alone do not show that order.
\<close>

datatype effect =
    StatusWritten int string "string option"
  | LogAppended int string "string option"
  | ProxyAdded int
  | ProxyRemoved int
  | MessageSent int notice

text \<open>
  The four tables in rowid order, the \<open>AUTOINCREMENT\<close> counters (the largest id handed
  out so far) and the journal.
\<close>

record world =
  domains :: "domain_row list"
  proxies :: "proxy_row list"
  check_logs :: "check_log_row list"
  subscribers :: "subscriber_row list"
  proxies_seq :: int
  check_logs_seq :: int
  journal :: "effect list"

definition empty_world :: world where
  "empty_world =
     \<lparr>domains = [], proxies = [], check_logs = [], subscribers = [],
      proxies_seq = 0, check_logs_seq = 0, journal = []\<rparr>"

definition get_domain :: "world \<Rightarrow> string \<Rightarrow> domain_row option" where
  \<comment> \<open>\<open>SELECT ... FROM domains WHERE name = ?\<close> with the normalized name, \<open>fetchone\<close>\<close>
  "get_domain w name = find (\<lambda>r. dom_name r = Database_normalize_domain name) (domains w)"

definition update_domain_status ::
  "world \<Rightarrow> int \<Rightarrow> string \<Rightarrow> string option \<Rightarrow> timestamp \<Rightarrow> world" where
  \<comment> \<open>\<open>UPDATE domains SET last_status = ?, last_error = ?, last_checked = ? WHERE id = ?\<close>\<close>
  "update_domain_status w domain_id status error now =
     w\<lparr>domains :=
          map (\<lambda>r. if dom_id r = domain_id
                    then r\<lparr>dom_last_status := Some status, dom_last_error := error,
                           dom_last_checked := Some now\<rparr>
                    else r) (domains w),
       journal := journal w @ [StatusWritten domain_id status error]\<rparr>"

definition log_check ::
  "world \<Rightarrow> int \<Rightarrow> string \<Rightarrow> string option \<Rightarrow> timestamp \<Rightarrow> world" where
  \<comment> \<open>\<open>INSERT INTO check_logs(domain_id, checked_at, status, error)\<close>. No connection
      turns \<open>PRAGMA foreign_keys\<close> on, so the insert does not depend on the domain row.\<close>
  "log_check w domain_id status error now =
     w\<lparr>check_logs :=
          check_logs w @
            [\<lparr>log_id = check_logs_seq w + 1, log_domain_id = domain_id, log_checked_at = now,
              log_status = status, log_error = error\<rparr>],
       check_logs_seq := check_logs_seq w + 1,
       journal := journal w @ [LogAppended domain_id status error]\<rparr>"

definition add_proxy ::
  "world \<Rightarrow> string \<Rightarrow> int \<Rightarrow> string option \<Rightarrow> string option \<Rightarrow> string option \<Rightarrow> timestamp
     \<Rightarrow> int \<times> world" where
  \<comment> \<open>\<open>UPDATE proxies SET is_active = 0\<close>, then the \<open>INSERT\<close> with \<open>is_active = 1\<close>;
      returns \<open>lastrowid\<close>.\<close>
  "add_proxy w host port username password country now =
     (let new_id = proxies_seq w + 1
      in (new_id,
          w\<lparr>proxies :=
               map (\<lambda>p. p\<lparr>prx_is_active := 0\<rparr>) (proxies w) @
                 [\<lparr>prx_id = new_id, prx_host = host, prx_port = port, prx_username = username,
                   prx_password = password, prx_country = country, prx_is_active = 1,
                   prx_created_at = now\<rparr>],
            proxies_seq := new_id,
            journal := journal w @ [ProxyAdded new_id]\<rparr>))"

definition newest :: "proxy_row list \<Rightarrow> proxy_row option" where
  \<comment> \<open>\<open>ORDER BY created_at DESC LIMIT 1\<close>\<close>
  "newest ps = first_max (\<lambda>p q. prx_created_at p < prx_created_at q) ps"

definition remove_proxy :: "world \<Rightarrow> int \<Rightarrow> bool \<times> world" where
  \<comment> \<open>\<open>DELETE FROM proxies WHERE id = ?\<close>; if a row went,
      \<open>UPDATE proxies SET is_active = 1 WHERE id = (SELECT id FROM proxies ORDER BY
      created_at DESC LIMIT 1)\<close>, which updates nothing when no row is left.\<close>
  "remove_proxy w proxy_id =
     (let remaining = filter (\<lambda>p. prx_id p \<noteq> proxy_id) (proxies w);
          rowcount = length (proxies w) - length remaining
      in if rowcount > 0
         then (True,
               w\<lparr>proxies :=
                    (case newest remaining of
                       None \<Rightarrow> remaining
                     | Some q \<Rightarrow>
                         map (\<lambda>p. if prx_id p = prx_id q then p\<lparr>prx_is_active := 1\<rparr> else p)
                           remaining),
                 journal := journal w @ [ProxyRemoved proxy_id]\<rparr>)
         else (False, w))"

definition get_active_proxy :: "world \<Rightarrow> proxy_row option" where
  \<comment> \<open>\<open>WHERE is_active = 1 ORDER BY created_at DESC LIMIT 1\<close>\<close>
  "get_active_proxy w = newest (filter (\<lambda>p. prx_is_active p = 1) (proxies w))"

definition get_proxy_for_country :: "world \<Rightarrow> string \<Rightarrow> proxy_row option" where
  \<comment> \<open>\<open>WHERE lower(country) = lower(?) ORDER BY is_active DESC, created_at DESC LIMIT 1\<close>;
      a \<open>NULL\<close> country matches nothing.\<close>
  "get_proxy_for_country w country =
     first_max
       (\<lambda>p q. prx_is_active p < prx_is_active q \<or>
               (prx_is_active p = prx_is_active q \<and> prx_created_at p < prx_created_at q))
       (filter
          (\<lambda>p. case prx_country p of None \<Rightarrow> False
                | Some c \<Rightarrow> sql_lower c = sql_lower country)
          (proxies w))"

definition list_subscribers :: "world \<Rightarrow> int list" where
  "list_subscribers w = map sub_chat_id (subscribers w)"

section \<open>Notifications (checker.py, \<open>NotificationService\<close>)\<close>

definition broadcast :: "world \<Rightarrow> notice \<Rightarrow> world" where
  \<comment> \<open>One \<open>send_message\<close> for each subscriber; a send that fails is logged and skipped,
      so it changes nothing of what follows.\<close>
  "broadcast w message =
     foldl (\<lambda>w chat_id. w\<lparr>journal := journal w @ [MessageSent chat_id message]\<rparr>)
       w (list_subscribers w)"

definition notify_downtime :: "world \<Rightarrow> string \<Rightarrow> string \<Rightarrow> world" where
  "notify_downtime w domain error = broadcast w (Downtime domain error)"

definition notify_recovery :: "world \<Rightarrow> string \<Rightarrow> world" where
  "notify_recovery w domain = broadcast w (Recovery domain)"

section \<open>The probe (checker.py, \<open>DomainChecker\<close>)\<close>

text \<open>
  What the HTTP client does with a request is an input of the model: it answers with a
  status code or raises. An exception carries the name of its type and those of the
  classes named in the handlers of \<open>_perform_check\<close> that it is an instance of.
\<close>

datatype exc_class =
    ClientConnectorCertificateError
  | ClientSSLError
  | ClientError
  | TimeoutError
  | SSLError

record py_exception =
  exc_type_name :: string
  exc_classes :: "exc_class list"

definition isinstance :: "py_exception \<Rightarrow> exc_class \<Rightarrow> bool" where
  "isinstance exc c = (c \<in> set (exc_classes exc))"

datatype reply = Response int | Raises py_exception

record request =
  req_url :: string
  req_proxy :: "string option"
  req_user_agent :: string

datatype error = ValueError_domain_not_found | Uncaught py_exception

definition get_proxy :: "world \<Rightarrow> string option" where
  \<comment> \<open>\<open>DomainChecker._get_proxy\<close>; the credentials are written when both are present
      and not empty.\<close>
  "get_proxy w =
     (let proxy = get_proxy_for_country w ''turkey'';
          proxy = (case proxy of None \<Rightarrow> get_active_proxy w | Some p \<Rightarrow> Some p)
      in case proxy of
           None \<Rightarrow> None
         | Some p \<Rightarrow>
             (let auth =
                    (case (prx_username p, prx_password p) of
                       (Some username, Some password) \<Rightarrow>
                         if username \<noteq> [] \<and> password \<noteq> []
                         then username @ '':'' @ password @ ''@'' else []
                     | _ \<Rightarrow> [])
              in Some (''http://'' @ auth @ prx_host p @ '':'' @ str_int (prx_port p))))"

definition target_url :: "string \<Rightarrow> string" where
  \<comment> \<open>\<open>url = domain if domain.startswith("http") else f"https://{domain}"\<close>\<close>
  "target_url domain = (if startswith domain ''http'' then domain else ''https://'' @ domain)"

definition perform_check ::
  "world \<Rightarrow> string \<Rightarrow> string \<Rightarrow> (request \<Rightarrow> reply)
     \<Rightarrow> py_exception + (bool \<times> string option)" where
  \<comment> \<open>\<open>DomainChecker._perform_check\<close>; \<open>Inl\<close> is an exception that no handler catches.
      The user agent is drawn at random by the source and is an argument here.\<close>
  "perform_check w domain user_agent net =
     (let proxy = get_proxy w;
          url = target_url domain
      in case net \<lparr>req_url = url, req_proxy = proxy, req_user_agent = user_agent\<rparr> of
           Response status \<Rightarrow>
             if status < 400 then Inr (True, None)
             else Inr (False, Some (''HTTP '' @ str_int status))
         | Raises exc \<Rightarrow>
             if isinstance exc ClientConnectorCertificateError
               then Inr (False, Some ''ERR_SSL_PROTOCOL_ERROR'')
             else if isinstance exc ClientSSLError
               then Inr (False, Some ''ERR_SSL_PROTOCOL_ERROR'')
             else if isinstance exc ClientError \<or> isinstance exc TimeoutError
               then Inr (False, Some (exc_type_name exc))
             else if isinstance exc SSLError
               then Inr (False, Some ''ERR_SSL_PROTOCOL_ERROR'')
             else Inl exc)"

section \<open>The check of one domain (checker.py, \<open>DomainChecker\<close>)\<close>

definition check_domain_record ::
  "world \<Rightarrow> domain_row \<Rightarrow> bool \<Rightarrow> string \<Rightarrow> (request \<Rightarrow> reply) \<Rightarrow> timestamp \<Rightarrow> timestamp
     \<Rightarrow> (error + (bool \<times> string option)) \<times> world" where
  \<comment> \<open>\<open>DomainChecker._check_domain_record\<close>; the two timestamps are the clock as read by
      \<open>update_domain_status\<close> and by \<open>log_check\<close>.\<close>
  "check_domain_record w domain notify_on_change user_agent net t_status t_log =
     (case perform_check w (dom_name domain) user_agent net of
        Inl exc \<Rightarrow> (Inl (Uncaught exc), w)
      | Inr (is_up, error) \<Rightarrow>
          (let status = (if is_up then ''up'' else ''down'');
               previous_status = py_or (dom_last_status domain) ''unknown'';
               w = update_domain_status w (dom_id domain) status error t_status;
               w = log_check w (dom_id domain) status error t_log;
               w = (if notify_on_change \<and> previous_status \<noteq> status
                    then if status = ''down''
                           then notify_downtime w (dom_name domain) (py_or error ''Unknown error'')
                         else if previous_status = ''down'' \<and> status = ''up''
                           then notify_recovery w (dom_name domain)
                         else w
                    else w)
           in (Inr (is_up, error), w)))"

definition check_domain_by_name ::
  "world \<Rightarrow> string \<Rightarrow> string \<Rightarrow> (request \<Rightarrow> reply) \<Rightarrow> timestamp \<Rightarrow> timestamp
     \<Rightarrow> (error + (bool \<times> string option)) \<times> world" where
  \<comment> \<open>\<open>DomainChecker.check_domain_by_name\<close>, run by one holder of the lock at a time\<close>
  "check_domain_by_name w name user_agent net t_status t_log =
     (case get_domain w name of
        None \<Rightarrow> (Inl ValueError_domain_not_found, w)
      | Some record \<Rightarrow> check_domain_record w record False user_agent net t_status t_log)"

section \<open>Sequences of proxy operations\<close>

datatype proxy_op =
    AddProxy string int "string option" "string option" "string option" timestamp
  | RemoveProxy int

fun apply_proxy_op :: "world \<Rightarrow> proxy_op \<Rightarrow> world" where
  "apply_proxy_op w (AddProxy host port username password country now) =
     snd (add_proxy w host port username password country now)"
| "apply_proxy_op w (RemoveProxy proxy_id) = snd (remove_proxy w proxy_id)"

definition run_proxy_ops :: "world \<Rightarrow> proxy_op list \<Rightarrow> world" where
  "run_proxy_ops w ops = foldl apply_proxy_op w ops"

fun add_times :: "proxy_op list \<Rightarrow> timestamp list" where
  \<comment> \<open>The clock as read by the \<open>add_proxy\<close> calls of a sequence, in order.\<close>
  "add_times [] = []"
| "add_times (AddProxy host port username password country now # ops) = now # add_times ops"
| "add_times (RemoveProxy proxy_id # ops) = add_times ops"

definition active_proxies :: "world \<Rightarrow> proxy_row list" where
  "active_proxies w = filter (\<lambda>p. prx_is_active p = 1) (proxies w)"

section \<open>Notions used in the statements\<close>

definition request_for :: "world \<Rightarrow> string \<Rightarrow> string \<Rightarrow> request" where
  \<comment> \<open>The request that \<open>_perform_check\<close> sends for a domain.\<close>
  "request_for w domain user_agent =
     \<lparr>req_url = target_url domain, req_proxy = get_proxy w, req_user_agent = user_agent\<rparr>"

definition caught :: "py_exception \<Rightarrow> bool" where
  \<comment> \<open>The exception is an instance of a class named in a handler of \<open>_perform_check\<close>.\<close>
  "caught exc =
     (isinstance exc ClientConnectorCertificateError \<or> isinstance exc ClientSSLError \<or>
      isinstance exc ClientError \<or> isinstance exc TimeoutError \<or> isinstance exc SSLError)"

definition tls_failure :: "py_exception \<Rightarrow> bool" where
  \<comment> \<open>The TLS and certificate errors of the HTTP client, and an \<open>ssl.SSLError\<close> that is
      neither a \<open>ClientError\<close> nor a timeout.\<close>
  "tls_failure exc =
     (isinstance exc ClientConnectorCertificateError \<or> isinstance exc ClientSSLError \<or>
      (isinstance exc SSLError \<and> \<not> isinstance exc ClientError \<and>
       \<not> isinstance exc TimeoutError))"

definition sends :: "world \<Rightarrow> notice \<Rightarrow> effect list" where
  \<comment> \<open>One message to each subscriber, in the order of \<open>list_subscribers\<close>.\<close>
  "sends w message = map (\<lambda>chat_id. MessageSent chat_id message) (list_subscribers w)"

definition proxy_pool_ok :: "world \<Rightarrow> bool" where
  \<comment> \<open>Ids and creation times are pairwise different, no id is above the counter, and
      the active rows are those with the latest creation time.\<close>
  "proxy_pool_ok w =
     (distinct (map prx_id (proxies w)) \<and>
      distinct (map prx_created_at (proxies w)) \<and>
      (\<forall>p\<in>set (proxies w). prx_id p \<le> proxies_seq w) \<and>
      (\<forall>p\<in>set (proxies w).
         (prx_is_active p = 1) = (\<forall>q\<in>set (proxies w). prx_created_at q \<le> prx_created_at p)))"

section \<open>A concrete store for the examples\<close>

definition demo_domain :: "string option \<Rightarrow> domain_row" where
  "demo_domain last_status =
     \<lparr>dom_id = 1, dom_name = ''example.com'', dom_is_active = 1, dom_last_status = last_status,
      dom_last_error = None, dom_last_checked = None\<rparr>"

definition demo_world :: "string option \<Rightarrow> world" where
  \<comment> \<open>One registered domain and one subscriber.\<close>
  "demo_world last_status =
     empty_world\<lparr>domains := [demo_domain last_status],
                 subscribers := [\<lparr>sub_chat_id = 7, sub_added_at = 0\<rparr>]\<rparr>"

definition empty_label_domain :: domain_row where
  \<comment> \<open>A registered name with an empty label, as \<open>/add_domain example..com\<close> stores it.\<close>
  "empty_label_domain =
     \<lparr>dom_id = 1, dom_name = ''example..com'', dom_is_active = 1,
      dom_last_status = Some ''up'', dom_last_error = None, dom_last_checked = None\<rparr>"

definition empty_label_world :: world where
  "empty_label_world =
     empty_world\<lparr>domains := [empty_label_domain],
                 subscribers := [\<lparr>sub_chat_id = 7, sub_added_at = 0\<rparr>]\<rparr>"

definition rejects_empty_label :: "request \<Rightarrow> reply" where
  \<comment> \<open>An HTTP client that cannot encode the host of \<open>https://example..com\<close> and raises
      \<open>UnicodeError\<close>, which is none of the classes named in the handlers; every other
      request is answered with 200.\<close>
  "rejects_empty_label r =
     (if req_url r = ''https://example..com''
      then Raises \<lparr>exc_type_name = ''UnicodeError'', exc_classes = []\<rparr>
      else Response 200)"

section \<open>Lemmas on strings\<close>

lemma of_char_lower_char:
  "(of_char (lower_char c) :: nat) =
     (let n = (of_char c :: nat)
      in if (65 \<le> n \<and> n \<le> 90) \<or> (192 \<le> n \<and> n \<le> 222 \<and> n \<noteq> 215) then n + 32 else n)"
  by (auto simp: lower_char_def Let_def)

lemma is_space_lower_char [simp]: "is_space (lower_char c) = is_space c"
  unfolding is_space_def of_char_lower_char by (auto simp: Let_def)

lemma lower_char_idem [simp]: "lower_char (lower_char c) = lower_char c"
proof -
  have "(of_char (lower_char (lower_char c)) :: nat) = of_char (lower_char c)"
    unfolding of_char_lower_char by (auto simp: Let_def)
  then show ?thesis by simp
qed

lemma lower_char_slash [simp]: "(lower_char c = CHR ''/'') = (c = CHR ''/'')"
proof -
  have "((of_char (lower_char c) :: nat) = of_char CHR ''/'') = ((of_char c :: nat) = of_char CHR ''/'')"
    unfolding of_char_lower_char by (auto simp: Let_def)
  then show ?thesis by (simp only: of_char_eq_iff)
qed

lemma dropWhile_same_length: "length (dropWhile p xs) = length xs \<Longrightarrow> dropWhile p xs = xs"
  by (metis append_self_conv2 length_append add_cancel_right_left length_0_conv takeWhile_dropWhile_id)

lemma no_scheme_after_slashes:
  assumes ns: "\<not> startswith c p" and all: "set q \<subseteq> {CHR ''/''}"
    and short: "\<And>k. k < length p \<Longrightarrow> set (drop k p) \<subseteq> {CHR ''/''} \<Longrightarrow> c = take k p \<Longrightarrow> False"
  shows "\<not> startswith (c @ q) p"
proof
  assume "startswith (c @ q) p"
  then have eq: "take (length p) c @ take (length p - length c) q = p"
    by (simp add: startswith_def)
  show False
  proof (cases "length p \<le> length c")
    case True
    with eq have "take (length p) c = p" by simp
    with ns show False by (simp add: startswith_def)
  next
    case False
    then have lt: "length c < length p" by simp
    with eq have eq': "c @ take (length p - length c) q = p" by simp
    then have c: "c = take (length c) p" by (metis append_eq_conv_conj)
    from eq' have "take (length p - length c) q = drop (length c) p" by (metis append_eq_conv_conj)
    then have "set (drop (length c) p) \<subseteq> set q" by (metis set_take_subset)
    with all have "set (drop (length c) p) \<subseteq> {CHR ''/''}" by blast
    from short[OF lt this c] show False .
  qed
qed

lemma lt7: "k < 7 \<Longrightarrow> k = 0 \<or> k = 1 \<or> k = 2 \<or> k = 3 \<or> k = 4 \<or> k = 5 \<or> k = (6::nat)" by arith
lemma lt8: "k < 8 \<Longrightarrow> k = 0 \<or> k = 1 \<or> k = 2 \<or> k = 3 \<or> k = 4 \<or> k = 5 \<or> k = 6 \<or> k = (7::nat)" by arith

lemma http_tail:
  assumes "k < length ''http://''" "set (drop k ''http://'') \<subseteq> {CHR ''/''}" "c = take k ''http://''"
  shows "c = ''http:'' \<or> c = ''http:/''"
  using assms lt7[of k] by (auto simp: drop_Cons' take_Cons')

lemma https_tail:
  assumes "k < length ''https://''" "set (drop k ''https://'') \<subseteq> {CHR ''/''}" "c = take k ''https://''"
  shows "c = ''https:'' \<or> c = ''https:/''"
  using assms lt8[of k] by (auto simp: drop_Cons' take_Cons')

lemma dropWhile_all: "\<forall>x\<in>set a. p x \<Longrightarrow> dropWhile p (a @ xs) = dropWhile p xs"
  by (induction a) auto

lemma dropWhile_hd: "xs \<noteq> [] \<Longrightarrow> \<not> p (hd xs) \<Longrightarrow> dropWhile p (xs @ b) = xs @ b"
  by (cases xs) auto

lemma dropWhile_only: "\<forall>x\<in>set a. p x \<Longrightarrow> dropWhile p a = []"
  by (induction a) auto

lemma strip_with_pad:
  assumes a: "\<forall>x\<in>set a. p x" and b: "\<forall>x\<in>set b. p x" and e: "edge_free p xs"
  shows "strip_with p (a @ xs @ b) = xs"
proof (cases "xs = []")
  case True
  then show ?thesis using a b by (simp add: strip_with_def dropWhile_only)
next
  case False
  with e have h: "\<not> p (hd xs)" and l: "\<not> p (last xs)" by (auto simp: edge_free_def)
  have "dropWhile p (a @ xs @ b) = xs @ b"
    using a False h by (simp add: dropWhile_all dropWhile_hd)
  moreover have "dropWhile p (rev b @ rev xs) = rev xs"
    using b False l dropWhile_hd[of "rev xs" p "[]"] by (simp add: dropWhile_all hd_rev)
  ultimately show ?thesis by (simp add: strip_with_def)
qed

lemma strip_with_id: "edge_free p xs \<Longrightarrow> strip_with p xs = xs"
  using strip_with_pad[of "[]" p "[]" xs] by simp

lemma length_strip_with: "length (strip_with p xs) \<le> length xs"
  unfolding strip_with_def
  by (metis length_dropWhile_le length_rev le_trans)

lemma strip_with_fixed: "length (strip_with p xs) = length xs \<Longrightarrow> edge_free p xs"
proof -
  assume len: "length (strip_with p xs) = length xs"
  have l1: "length (dropWhile p (rev (dropWhile p xs))) \<le> length (dropWhile p xs)"
    by (metis length_dropWhile_le length_rev)
  have l2: "length (dropWhile p xs) \<le> length xs" by (rule length_dropWhile_le)
  from len l1 l2 have e1: "length (dropWhile p xs) = length xs"
    and e2: "length (dropWhile p (rev (dropWhile p xs))) = length (rev (dropWhile p xs))"
    by (simp_all add: strip_with_def)
  from e1 have d1: "dropWhile p xs = xs" by (rule dropWhile_same_length)
  from e2 have d2: "dropWhile p (rev xs) = rev xs" using d1 dropWhile_same_length by fastforce
  show ?thesis
  proof (cases xs)
    case Nil then show ?thesis by (simp add: edge_free_def)
  next
    case (Cons y ys)
    with d1 have "\<not> p (hd xs)" by (auto split: if_splits) (metis length_dropWhile_le impossible_Cons)
    moreover have "\<not> p (last xs)"
    proof
      assume "p (last xs)"
      then have "p (hd (rev xs))" by (simp add: hd_rev)
      then have "dropWhile p (rev xs) = dropWhile p (tl (rev xs))" using Cons by (cases "rev xs") auto
      with d2 have "length (rev xs) = length (dropWhile p (tl (rev xs)))" by simp
      moreover have "length (dropWhile p (tl (rev xs))) \<le> length (tl (rev xs))" by (rule length_dropWhile_le)
      ultimately show False using Cons by simp
    qed
    ultimately show ?thesis by (simp add: edge_free_def)
  qed
qed

section \<open>Lemmas on the normalization\<close>

lemma normalize_same: "BotService_normalize_domain = Database_normalize_domain"
  by (rule ext) (simp add: BotService_normalize_domain_def Database_normalize_domain_def)

lemma lower_append: "lower (a @ b) = lower a @ lower b"
  by (simp add: lower_def)

lemma lower_slashes: "lower (replicate n CHR ''/'') = replicate n CHR ''/''"
  by (simp add: lower_def lower_char_def)

lemma edge_free_lower: "edge_free is_space (lower xs) = edge_free is_space xs"
  by (cases "xs = []") (simp_all add: edge_free_def lower_def hd_map last_map)

lemma startswith_length: "startswith s p \<Longrightarrow> length p \<le> length s"
  unfolding startswith_def by (metis length_take min.cobounded2 min.commute)

lemma normalize_fixed:
  assumes fx: "Database_normalize_domain c = c"
  shows "edge_free is_space c" and "lower c = c"
    and "\<not> startswith c ''http://''" and "\<not> startswith c ''https://''"
    and "edge_free (\<lambda>x. x \<in> set ''/'') c"
proof -
  define a where "a = strip c"
  define b where "b = lower a"
  define v where "v = (if startswith b ''http://'' then drop 7 b
                       else if startswith b ''https://'' then drop 8 b else b)"
  have r: "strip_chars ''/'' v = c"
    using fx unfolding Database_normalize_domain_def Let_def a_def b_def v_def .
  have l1: "length c \<le> length v"
    using length_strip_with[of "\<lambda>x. x \<in> set ''/''" v] r by (simp add: strip_chars_def)
  have l2: "length v \<le> length b" by (simp add: v_def)
  have l3: "length b = length a" by (simp add: b_def lower_def)
  have l4: "length a \<le> length c" by (simp add: a_def strip_def length_strip_with)
  from l1 l2 l3 l4 have ea: "length a = length c" and eb: "length v = length b"
    and ev: "length (strip_chars ''/'' v) = length v" using r by simp_all
  from ea show e1: "edge_free is_space c"
    by (simp add: a_def strip_def strip_with_fixed)
  then have ac: "a = c" by (simp add: a_def strip_def strip_with_id)
  have ns1: "\<not> startswith b ''http://''"
  proof
    assume s: "startswith b ''http://''"
    then have "length v = length b - 7" by (simp add: v_def)
    moreover from s have "7 \<le> length b" using startswith_length by fastforce
    ultimately show False using eb by simp
  qed
  have ns2: "\<not> startswith b ''https://''"
  proof
    assume s: "startswith b ''https://''"
    then have "length v = length b - 8" using ns1 by (simp add: v_def)
    moreover from s have "8 \<le> length b" using startswith_length by fastforce
    ultimately show False using eb by simp
  qed
  from ns1 ns2 have vb: "v = b" by (simp add: v_def)
  from ev have e2: "edge_free (\<lambda>x. x \<in> set ''/'') v"
    by (simp add: strip_chars_def strip_with_fixed)
  then have "strip_chars ''/'' v = v" by (simp add: strip_chars_def strip_with_id)
  with r vb ac have cb: "c = lower c" by (simp add: b_def)
  then show "lower c = c" by simp
  from ns1 ns2 cb ac show "\<not> startswith c ''http://''" "\<not> startswith c ''https://''"
    by (simp_all add: b_def)
  from e2 vb cb ac show "edge_free (\<lambda>x. x \<in> set ''/'') c" by (simp add: b_def)
qed

lemma normalize_canonical:
  assumes "edge_free is_space c" and "lower c = c"
    and "\<not> startswith c ''http://''" and "\<not> startswith c ''https://''"
    and "edge_free (\<lambda>x. x \<in> set ''/'') c"
  shows "Database_normalize_domain c = c"
  using assms by (simp add: Database_normalize_domain_def strip_def strip_chars_def strip_with_id Let_def)

lemma scheme_step:
  assumes sch: "sch = [] \<or> sch = ''http://'' \<or> sch = ''https://''"
    and ns1: "\<not> startswith c ''http://''" and ns2: "\<not> startswith c ''https://''"
    and e: "edge_free (\<lambda>x. x \<in> set ''/'') c"
    and d1: "c \<noteq> ''http:''" and d2: "c \<noteq> ''https:''"
  shows "(let y = sch @ c @ replicate n CHR ''/'' in
          if startswith y ''http://'' then drop 7 y
          else if startswith y ''https://'' then drop 8 y else y) = c @ replicate n CHR ''/''"
proof -
  have nl: "c \<noteq> ''http:/''" "c \<noteq> ''https:/''" using e by (auto simp: edge_free_def)
  have a1: "\<not> startswith (c @ replicate n CHR ''/'') ''http://''"
    by (rule no_scheme_after_slashes[OF ns1]) (use http_tail d1 nl in auto)
  have a2: "\<not> startswith (c @ replicate n CHR ''/'') ''https://''"
    by (rule no_scheme_after_slashes[OF ns2]) (use https_tail d2 nl in auto)
  from sch show ?thesis
  proof (elim disjE)
    assume "sch = []" with a1 a2 show ?thesis by simp
  next
    assume "sch = ''http://''" then show ?thesis by (simp add: startswith_def)
  next
    assume "sch = ''https://''" then show ?thesis by (simp add: startswith_def)
  qed
qed

lemma last_dropWhile_keep: "dropWhile p xs \<noteq> [] \<Longrightarrow> last (dropWhile p xs) = last xs"
  by (induction xs) (auto split: if_splits)

lemma edge_free_strip_with: "edge_free p (strip_with p xs)"
proof (cases "strip_with p xs = []")
  case True then show ?thesis by (simp add: edge_free_def)
next
  case False
  define ws where "ws = dropWhile p xs"
  define zs where "zs = dropWhile p (rev ws)"
  have s: "strip_with p xs = rev zs" by (simp add: strip_with_def zs_def ws_def)
  with False have zn: "zs \<noteq> []" by simp
  then have wn: "ws \<noteq> []" by (auto simp: zs_def)
  from zn have "\<not> p (hd zs)" unfolding zs_def by (rule hd_dropWhile)
  then have l: "\<not> p (last (rev zs))" using zn by (simp add: last_rev)
  have "last zs = last (rev ws)" using zn unfolding zs_def by (rule last_dropWhile_keep)
  also have "\<dots> = hd ws" using wn by (simp add: last_rev)
  finally have "hd (rev zs) = hd ws" by (simp add: hd_rev)
  moreover have "\<not> p (hd ws)" using wn unfolding ws_def by (rule hd_dropWhile)
  ultimately show ?thesis using l s by (simp add: edge_free_def)
qed

lemma set_strip_with: "set (strip_with p xs) \<subseteq> set xs"
proof -
  have "set (dropWhile p (rev (dropWhile p xs))) \<subseteq> set (rev (dropWhile p xs))"
    by (auto dest: set_dropWhileD)
  also have "\<dots> \<subseteq> set xs" by (auto dest: set_dropWhileD)
  finally show ?thesis by (simp add: strip_with_def)
qed

lemma normalize_lowercase: "lower (Database_normalize_domain x) = Database_normalize_domain x"
proof -
  define b where "b = lower (strip x)"
  define v where "v = (if startswith b ''http://'' then drop 7 b
                       else if startswith b ''https://'' then drop 8 b else b)"
  have n: "Database_normalize_domain x = strip_chars ''/'' v"
    unfolding Database_normalize_domain_def Let_def b_def v_def ..
  have "set v \<subseteq> set b" by (auto simp: v_def dest: in_set_dropD)
  with set_strip_with[of "\<lambda>c. c \<in> set ''/''" v]
  have "set (Database_normalize_domain x) \<subseteq> set b" by (simp add: n strip_chars_def)
  then have "\<forall>ch\<in>set (Database_normalize_domain x). lower_char ch = ch"
    by (auto simp: b_def lower_def)
  then show ?thesis by (simp add: lower_def map_idI)
qed

lemma normalize_no_edge_slash:
  "edge_free (\<lambda>c. c = CHR ''/'') (Database_normalize_domain x)"
  using edge_free_strip_with[of "\<lambda>c. c \<in> set ''/''"]
  by (simp add: Database_normalize_domain_def Let_def strip_chars_def)

lemma normalize_variant:
  assumes canon: "Database_normalize_domain c = c"
    and d1: "c \<noteq> ''http:''" and d2: "c \<noteq> ''https:''"
    and w1: "\<forall>x\<in>set ws1. is_space x" and w2: "\<forall>x\<in>set ws2. is_space x"
    and sch: "lower s = [] \<or> lower s = ''http://'' \<or> lower s = ''https://''"
    and u: "lower u = c"
  shows "Database_normalize_domain (ws1 @ s @ u @ replicate n CHR ''/'' @ ws2) = c"
proof -
  note fx = normalize_fixed[OF canon]
  define X where "X = s @ u @ replicate n CHR ''/''"
  define Y where "Y = lower s @ c @ replicate n CHR ''/''"
  have lX: "lower X = Y" by (simp add: X_def Y_def lower_append lower_slashes u)
  have sl: "\<not> is_space CHR ''/''" by (simp add: is_space_def)
  have hh: "\<not> is_space CHR ''h''" by (simp add: is_space_def)
  have "edge_free is_space Y"
  proof (cases "Y = []")
    case True then show ?thesis by (simp add: edge_free_def)
  next
    case False
    have h: "\<not> is_space (hd Y)"
      using sch fx(1) sl hh False by (cases n) (auto simp: Y_def edge_free_def hd_append)
    have l: "\<not> is_space (last Y)"
      using sch fx(1) sl False by (cases n) (auto simp: Y_def edge_free_def split: if_splits)
    from h l show ?thesis by (simp add: edge_free_def)
  qed
  then have eX: "edge_free is_space X" using lX edge_free_lower by metis
  have "ws1 @ s @ u @ replicate n CHR ''/'' @ ws2 = ws1 @ X @ ws2" by (simp add: X_def)
  moreover have "strip (ws1 @ X @ ws2) = X"
    using strip_with_pad[OF w1 w2 eX] by (simp add: strip_def)
  ultimately have st: "strip (ws1 @ s @ u @ replicate n CHR ''/'' @ ws2) = X"
    by (simp only:)
  have step: "(if startswith Y ''http://'' then drop 7 Y
               else if startswith Y ''https://'' then drop 8 Y else Y) = c @ replicate n CHR ''/''"
    using scheme_step[OF sch fx(3) fx(4) fx(5) d1 d2, of n] unfolding Y_def Let_def .
  have fin: "strip_chars ''/'' (c @ replicate n CHR ''/'') = c"
    using strip_with_pad[of "[]" "\<lambda>x. x \<in> set ''/''" "replicate n CHR ''/''" c] fx(5)
    by (simp add: strip_chars_def)
  show ?thesis
    unfolding Database_normalize_domain_def Let_def st lX step fin ..
qed


section \<open>Claims on the normalization\<close>

text \<open>
  C8 (amended). \<open>Database._normalize_domain\<close> and \<open>BotService._normalize_domain\<close> agree.
  For every string the result is in lower case and has no slash at either end. Let \<open>c\<close>
  be a canonical name, that is a string that normalization leaves as it is, other than
  the bare words \<open>http:\<close> and \<open>https:\<close>. Every variant of \<open>c\<close> made of surrounding
  whitespace, an optional \<open>http://\<close> or \<open>https://\<close> prefix in any case, any spelling of
  \<open>c\<close> in upper and lower case, and any number of trailing slashes normalizes to \<open>c\<close>,
  and normalizing such a variant twice gives the same as normalizing it once.
\<close>
theorem normalize_domain_canonical_variants:
  assumes "Database_normalize_domain c = c" and "c \<noteq> ''http:''" and "c \<noteq> ''https:''"
    and "\<forall>x\<in>set ws1. is_space x" and "\<forall>x\<in>set ws2. is_space x"
    and "lower s = [] \<or> lower s = ''http://'' \<or> lower s = ''https://''"
    and "lower u = c"
  shows "Database_normalize_domain (ws1 @ s @ u @ replicate n CHR ''/'' @ ws2) = c \<and>
         BotService_normalize_domain (ws1 @ s @ u @ replicate n CHR ''/'' @ ws2) = c \<and>
         Database_normalize_domain
           (Database_normalize_domain (ws1 @ s @ u @ replicate n CHR ''/'' @ ws2)) =
           Database_normalize_domain (ws1 @ s @ u @ replicate n CHR ''/'' @ ws2) \<and>
         lower (Database_normalize_domain x) = Database_normalize_domain x \<and>
         edge_free (\<lambda>ch. ch = CHR ''/'') (Database_normalize_domain x)"
proof -
  have v: "Database_normalize_domain (ws1 @ s @ u @ replicate n CHR ''/'' @ ws2) = c"
    using assms by (rule normalize_variant)
  moreover have "BotService_normalize_domain (ws1 @ s @ u @ replicate n CHR ''/'' @ ws2) = c"
    using v by (simp add: normalize_same)
  moreover have "Database_normalize_domain
           (Database_normalize_domain (ws1 @ s @ u @ replicate n CHR ''/'' @ ws2)) =
           Database_normalize_domain (ws1 @ s @ u @ replicate n CHR ''/'' @ ws2)"
    using v assms(1) by simp
  ultimately show ?thesis
    using normalize_lowercase[of x] normalize_no_edge_slash[of x] by simp
qed

text \<open>
  The variants \<open>HTTPS://Example.com/\<close> (also with surrounding blanks) and
  \<open>example.com\<close> have the same canonical name.
\<close>

theorem normalize_domain_canonical_variants_witness:
  "Database_normalize_domain ''example.com'' = ''example.com'' \<and>
   Database_normalize_domain ''HTTPS://Example.com/'' = ''example.com'' \<and>
   BotService_normalize_domain ''HTTPS://Example.com/'' = ''example.com'' \<and>
   Database_normalize_domain ''  HTTPS://Example.com/ '' = ''example.com'' \<and>
   Database_normalize_domain (Database_normalize_domain ''  HTTPS://Example.com/ '') =
     Database_normalize_domain ''  HTTPS://Example.com/ ''"
proof -
  have h1: "Database_normalize_domain ''example.com'' = ''example.com''" by code_simp
  have h2: "''example.com'' \<noteq> ''http:''" "''example.com'' \<noteq> ''https:''" by simp_all
  have h3: "\<forall>x\<in>set ''  ''. is_space x" "\<forall>x\<in>set '' ''. is_space x"
    by (simp_all add: is_space_def)
  have h0: "\<forall>x\<in>set ([] :: string). is_space x" by simp
  have h4: "lower ''HTTPS://'' = [] \<or> lower ''HTTPS://'' = ''http://'' \<or>
            lower ''HTTPS://'' = ''https://''" by code_simp
  have h5: "lower ''Example.com'' = ''example.com''" by code_simp
  from normalize_domain_canonical_variants[OF h1 h2 h3 h4 h5, of 1]
    normalize_domain_canonical_variants[OF h1 h2 h0 h0 h4 h5, of 1] h1
  show ?thesis by simp
qed

text \<open>
  C8 as stated fails: normalization is not idempotent on every string. One pass removes
  one scheme prefix, so \<open>http://https://a\<close> becomes \<open>https://a\<close>, and that becomes \<open>a\<close>.
\<close>

theorem normalize_domain_not_idempotent:
  "Database_normalize_domain (Database_normalize_domain ''http://https://a'') \<noteq>
   Database_normalize_domain ''http://https://a''"
  by code_simp

section \<open>Claims on the probe\<close>

lemma perform_check_reply:
  "perform_check w domain ua net =
     (case net (request_for w domain ua) of
        Response status \<Rightarrow>
          if status < 400 then Inr (True, None)
          else Inr (False, Some (''HTTP '' @ str_int status))
      | Raises exc \<Rightarrow>
          if isinstance exc ClientConnectorCertificateError
            then Inr (False, Some ''ERR_SSL_PROTOCOL_ERROR'')
          else if isinstance exc ClientSSLError
            then Inr (False, Some ''ERR_SSL_PROTOCOL_ERROR'')
          else if isinstance exc ClientError \<or> isinstance exc TimeoutError
            then Inr (False, Some (exc_type_name exc))
          else if isinstance exc SSLError
            then Inr (False, Some ''ERR_SSL_PROTOCOL_ERROR'')
          else Inl exc)"
  by (simp add: perform_check_def request_for_def Let_def)

lemma perform_check_up_iff_no_error:
  assumes "perform_check w domain ua net = Inr (is_up, err)"
  shows "is_up \<longleftrightarrow> err = None"
  using assms by (auto simp: perform_check_reply split: reply.splits if_splits)

lemma startswith_shorter:
  assumes "startswith d (p @ q)"
  shows "startswith d p"
proof -
  from assms have "take (length p) (take (length (p @ q)) d) = take (length p) (p @ q)"
    by (simp only: startswith_def)
  then show ?thesis by (simp add: startswith_def min_def)
qed

lemma target_url_cases:
  "(startswith d ''http://'' \<or> startswith d ''https://'' \<longrightarrow> target_url d = d) \<and>
   (\<not> startswith d ''http'' \<longrightarrow> target_url d = ''https://'' @ d)"
  using startswith_shorter[of d "''http''" "''://''"] startswith_shorter[of d "''http''" "''s://''"]
  by (auto simp: target_url_def)

lemma demo_probe:
  "perform_check w dn ua (\<lambda>r. Response 500) = Inr (False, Some ''HTTP 500'')"
  "perform_check w dn ua (\<lambda>r. Response 200) = Inr (True, None)"
proof -
  have "str_int 500 = ''500''" by code_simp
  then show "perform_check w dn ua (\<lambda>r. Response 500) = Inr (False, Some ''HTTP 500'')"
    by (simp add: perform_check_reply)
  show "perform_check w dn ua (\<lambda>r. Response 200) = Inr (True, None)"
    by (simp add: perform_check_reply)
qed

text \<open>
  C5. When the probe obtains an HTTP response, a status code below 400 gives the outcome
  up without an error, and a status code of 400 or more gives the outcome down with the
  error \<open>HTTP\<close>, a blank and the code in decimal.
\<close>

theorem perform_check_http_status:
  assumes "net (request_for w domain ua) = Response status"
  shows "(status < 400 \<longrightarrow> perform_check w domain ua net = Inr (True, None)) \<and>
         (400 \<le> status \<longrightarrow>
            perform_check w domain ua net = Inr (False, Some (''HTTP '' @ str_int status)))"
  using assms by (simp add: perform_check_reply)

text \<open>
  The codes 200 and 404: up without an error, and down with \<open>HTTP 404\<close>.
\<close>

theorem perform_check_http_status_witness:
  "perform_check empty_world ''example.com'' ''Mozilla/5.0'' (\<lambda>r. Response 200) =
     Inr (True, None) \<and>
   perform_check empty_world ''example.com'' ''Mozilla/5.0'' (\<lambda>r. Response 404) =
     Inr (False, Some ''HTTP 404'')"
proof -
  have s: "str_int 404 = ''404''" by code_simp
  from perform_check_http_status[of "\<lambda>r. Response 200" empty_world "''example.com''"
      "''Mozilla/5.0''" 200]
    perform_check_http_status[of "\<lambda>r. Response 404" empty_world "''example.com''"
      "''Mozilla/5.0''" 404] s
  show ?thesis by simp
qed

text \<open>
  What the handlers of \<open>_perform_check\<close> do. When every exception that the HTTP client
  raises for the request is an instance of a class named in a handler
  (\<open>ClientConnectorCertificateError\<close>, \<open>ClientSSLError\<close>, \<open>ClientError\<close>,
  \<open>asyncio.TimeoutError\<close>, \<open>ssl.SSLError\<close>), the probe returns exactly one outcome. For
  such an exception the outcome is down with an error kind, and the error kind is the
  token \<open>ERR_SSL_PROTOCOL_ERROR\<close> for the client's TLS and certificate errors and for an
  \<open>ssl.SSLError\<close> that is neither a \<open>ClientError\<close> nor a timeout.
\<close>

lemma perform_check_caught_failures:
  assumes "\<forall>exc. net (request_for w domain ua) = Raises exc \<longrightarrow> caught exc"
  shows "\<exists>!outcome. perform_check w domain ua net = Inr outcome \<and>
           (\<forall>exc. net (request_for w domain ua) = Raises exc \<longrightarrow>
              \<not> fst outcome \<and> snd outcome \<noteq> None \<and>
              (tls_failure exc \<longrightarrow> snd outcome = Some ''ERR_SSL_PROTOCOL_ERROR''))"
proof (cases "net (request_for w domain ua)")
  case (Response status)
  then show ?thesis by (auto simp: perform_check_reply)
next
  case (Raises exc)
  with assms have "caught exc" by simp
  with Raises show ?thesis
    by (auto simp: perform_check_reply caught_def tls_failure_def)
qed

text \<open>
  A certificate error of the client becomes down with \<open>ERR_SSL_PROTOCOL_ERROR\<close>.
\<close>

lemma perform_check_caught_failures_example:
  "perform_check empty_world ''example.com'' ''Mozilla/5.0''
     (\<lambda>r. Raises \<lparr>exc_type_name = ''ClientConnectorCertificateError'',
                   exc_classes = [ClientConnectorCertificateError, ClientSSLError, ClientError]\<rparr>) =
   Inr (False, Some ''ERR_SSL_PROTOCOL_ERROR'')"
proof -
  let ?e = "\<lparr>exc_type_name = ''ClientConnectorCertificateError'',
             exc_classes = [ClientConnectorCertificateError, ClientSSLError, ClientError]\<rparr>"
  have c: "\<forall>exc. Raises ?e = Raises exc \<longrightarrow> caught exc"
    by (simp add: caught_def isinstance_def)
  have t: "tls_failure ?e" by (simp add: tls_failure_def isinstance_def)
  from perform_check_caught_failures[where net = "\<lambda>r. Raises ?e" and w = empty_world
      and domain = "''example.com''" and ua = "''Mozilla/5.0''", OF c] t
  obtain outcome where
    "perform_check empty_world ''example.com'' ''Mozilla/5.0'' (\<lambda>r. Raises ?e) = Inr outcome"
    "\<not> fst outcome" "snd outcome = Some ''ERR_SSL_PROTOCOL_ERROR''"
    by auto
  then show ?thesis by (cases outcome) simp
qed

text \<open>
  C4, evaluated where the code departs from it. The claim is that the probe returns an
  outcome for every input and lets no error past its boundary. The handlers of
  \<open>_perform_check\<close> name five classes and there is no catch-all. The registered name
  \<open>example..com\<close> has an empty label; a client that cannot encode the host of
  \<open>https://example..com\<close> raises \<open>UnicodeError\<close>, which no handler matches, and the
  exception leaves \<open>_perform_check\<close> instead of becoming an outcome.
\<close>

theorem perform_check_uncaught_exception:
  "Database_normalize_domain ''example..com'' = ''example..com'' \<and>
   target_url ''example..com'' = ''https://example..com'' \<and>
   perform_check empty_label_world ''example..com'' ''Mozilla/5.0'' rejects_empty_label =
     Inl \<lparr>exc_type_name = ''UnicodeError'', exc_classes = []\<rparr>"
proof -
  have "Database_normalize_domain ''example..com'' = ''example..com''" by code_simp
  moreover have "target_url ''example..com'' = ''https://example..com''"
    by (simp add: target_url_def startswith_def)
  ultimately show ?thesis
    by (simp add: perform_check_reply request_for_def rejects_empty_label_def isinstance_def)
qed

text \<open>
  C6, evaluated where the code departs from it. The stored name \<open>httpbin.org\<close> has no
  scheme, yet it starts with \<open>http\<close>, so the target URL is the bare name and not
  \<open>https://httpbin.org\<close>: a client that answers 200 for the \<open>https\<close> URL and rejects
  anything else as an invalid URL makes the probe report the domain as down.
\<close>

theorem target_url_schemeless_http_name:
  "Database_normalize_domain ''httpbin.org'' = ''httpbin.org'' \<and>
   target_url ''httpbin.org'' = ''httpbin.org'' \<and>
   perform_check w ''httpbin.org'' ua
     (\<lambda>r. if req_url r = ''https://httpbin.org'' then Response 200
           else Raises \<lparr>exc_type_name = ''InvalidURL'', exc_classes = [ClientError]\<rparr>) =
   Inr (False, Some ''InvalidURL'')"
proof -
  have "Database_normalize_domain ''httpbin.org'' = ''httpbin.org''" by code_simp
  moreover have t: "target_url ''httpbin.org'' = ''httpbin.org''"
    by (simp add: target_url_def startswith_def)
  ultimately show ?thesis
    by (simp add: perform_check_reply request_for_def isinstance_def)
qed

section \<open>Claims on the check of one domain\<close>

lemma foldl_send:
  "foldl (\<lambda>w chat_id. w\<lparr>journal := journal w @ [MessageSent chat_id m]\<rparr>) w cs =
   w\<lparr>journal := journal w @ map (\<lambda>chat_id. MessageSent chat_id m) cs\<rparr>"
  by (induction cs arbitrary: w) simp_all

lemma broadcast_journal: "broadcast w m = w\<lparr>journal := journal w @ sends w m\<rparr>"
  by (simp add: broadcast_def sends_def foldl_send)

lemma writes_then:
  "log_check (update_domain_status w i st err ts) i st err tg =
   w\<lparr>domains :=
       map (\<lambda>r. if dom_id r = i
                 then r\<lparr>dom_last_status := Some st, dom_last_error := err,
                        dom_last_checked := Some ts\<rparr>
                 else r) (domains w),
     check_logs := check_logs w @
        [\<lparr>log_id = check_logs_seq w + 1, log_domain_id = i, log_checked_at = tg,
          log_status = st, log_error = err\<rparr>],
     check_logs_seq := check_logs_seq w + 1,
     journal := journal w @ [StatusWritten i st err, LogAppended i st err]\<rparr>"
  by (simp add: log_check_def update_domain_status_def)

lemma check_domain_record_result:
  assumes "perform_check w (dom_name d) ua net = Inr (is_up, err)"
  shows "check_domain_record w d notify ua net ts tg =
     (Inr (is_up, err),
      w\<lparr>domains :=
          map (\<lambda>r. if dom_id r = dom_id d
                    then r\<lparr>dom_last_status := Some (if is_up then ''up'' else ''down''),
                           dom_last_error := err, dom_last_checked := Some ts\<rparr>
                    else r) (domains w),
        check_logs := check_logs w @
          [\<lparr>log_id = check_logs_seq w + 1, log_domain_id = dom_id d, log_checked_at = tg,
            log_status = (if is_up then ''up'' else ''down''), log_error = err\<rparr>],
        check_logs_seq := check_logs_seq w + 1,
        journal := journal w @
          [StatusWritten (dom_id d) (if is_up then ''up'' else ''down'') err,
           LogAppended (dom_id d) (if is_up then ''up'' else ''down'') err] @
          (if notify \<and> py_or (dom_last_status d) ''unknown'' \<noteq> (if is_up then ''up'' else ''down'')
           then if \<not> is_up
                  then sends w (Downtime (dom_name d) (py_or err ''Unknown error''))
                else if py_or (dom_last_status d) ''unknown'' = ''down''
                  then sends w (Recovery (dom_name d))
                else []
           else [])\<rparr>)"
proof (cases is_up)
  case True
  then show ?thesis using assms
    by (simp add: check_domain_record_def Let_def
        notify_downtime_def notify_recovery_def broadcast_journal writes_then sends_def
        list_subscribers_def)
next
  case False
  then show ?thesis using assms
    by (simp add: check_domain_record_def Let_def
        notify_downtime_def notify_recovery_def broadcast_journal writes_then sends_def
        list_subscribers_def)
qed

lemma check_domain_record_uncaught:
  "perform_check w (dom_name d) ua net = Inl exc \<Longrightarrow>
   check_domain_record w d notify ua net ts tg = (Inl (Uncaught exc), w)"
  by (simp add: check_domain_record_def)

text \<open>
  The writes of \<open>_check_domain_record\<close> once the probe has returned. Whatever the
  outcome is, whether or not the status changes and whether or not a notification is due,
  the routine appends exactly one entry to the check log and sets \<open>last_status\<close>,
  \<open>last_error\<close> and \<open>last_checked\<close> of the row with the record's id; the two writes come
  first in the journal, and everything after them is a message to a subscriber.
\<close>

lemma check_domain_record_writes:
  assumes "perform_check w (dom_name d) ua net = Inr (is_up, err)"
  shows "\<exists>w' sent.
     check_domain_record w d notify ua net ts tg = (Inr (is_up, err), w') \<and>
     check_logs w' = check_logs w @
       [\<lparr>log_id = check_logs_seq w + 1, log_domain_id = dom_id d, log_checked_at = tg,
         log_status = (if is_up then ''up'' else ''down''), log_error = err\<rparr>] \<and>
     domains w' =
       map (\<lambda>r. if dom_id r = dom_id d
                 then r\<lparr>dom_last_status := Some (if is_up then ''up'' else ''down''),
                        dom_last_error := err, dom_last_checked := Some ts\<rparr>
                 else r) (domains w) \<and>
     journal w' = journal w @
       [StatusWritten (dom_id d) (if is_up then ''up'' else ''down'') err,
        LogAppended (dom_id d) (if is_up then ''up'' else ''down'') err] @ sent \<and>
     (\<forall>e\<in>set sent. \<exists>chat_id message. e = MessageSent chat_id message)"
  unfolding check_domain_record_result[OF assms]
  by (intro exI conjI) (rule refl, auto simp: sends_def split: if_splits)

text \<open>
  A domain that was up and answers 500: one log entry, the row set to down, and the two
  writes ahead of the messages.
\<close>

lemma check_domain_record_writes_example:
  "\<exists>w' sent.
     check_domain_record (demo_world (Some ''up'')) (demo_domain (Some ''up'')) True ''Mozilla/5.0''
       (\<lambda>r. Response 500) 10 11 = (Inr (False, Some ''HTTP 500''), w') \<and>
     check_logs w' =
       [\<lparr>log_id = 1, log_domain_id = 1, log_checked_at = 11, log_status = ''down'',
         log_error = Some ''HTTP 500''\<rparr>] \<and>
     domains w' =
       [\<lparr>dom_id = 1, dom_name = ''example.com'', dom_is_active = 1,
         dom_last_status = Some ''down'', dom_last_error = Some ''HTTP 500'',
         dom_last_checked = Some 10\<rparr>] \<and>
     journal w' =
       [StatusWritten 1 ''down'' (Some ''HTTP 500''),
        LogAppended 1 ''down'' (Some ''HTTP 500'')] @ sent"
proof -
  have p: "perform_check (demo_world (Some ''up'')) (dom_name (demo_domain (Some ''up'')))
             ''Mozilla/5.0'' (\<lambda>r. Response 500) = Inr (False, Some ''HTTP 500'')"
    by (rule demo_probe)
  from check_domain_record_writes[OF p, where notify = True and ts = 10 and tg = 11]
  show ?thesis
    by (simp add: demo_world_def demo_domain_def empty_world_def) blast
qed

text \<open>
  C2, evaluated where the code departs from it. The claim is that every invocation of
  \<open>_check_domain_record\<close> appends one entry to the check log and updates the record.
  For the registered name \<open>example..com\<close> the probe lets a \<open>UnicodeError\<close> through (the
  defect shown for C4), \<open>_check_domain_record\<close> has no handler around
  \<open>_perform_check\<close>, and the invocation ends before its writes: the check log stays
  empty and the record keeps its old status.
\<close>

theorem check_domain_record_aborts_when_probe_raises:
  "check_domain_record empty_label_world empty_label_domain True ''Mozilla/5.0''
     rejects_empty_label 10 11 =
   (Inl (Uncaught \<lparr>exc_type_name = ''UnicodeError'', exc_classes = []\<rparr>), empty_label_world) \<and>
   check_logs empty_label_world = [] \<and>
   domains empty_label_world = [empty_label_domain]"
proof -
  have "target_url ''example..com'' = ''https://example..com''"
    by (simp add: target_url_def startswith_def)
  then have "perform_check empty_label_world (dom_name empty_label_domain) ''Mozilla/5.0''
      rejects_empty_label = Inl \<lparr>exc_type_name = ''UnicodeError'', exc_classes = []\<rparr>"
    by (simp add: perform_check_reply request_for_def rejects_empty_label_def isinstance_def
        empty_label_domain_def)
  then show ?thesis
    by (simp add: check_domain_record_uncaught empty_label_world_def empty_world_def)
qed

text \<open>
  C1 (amended). Let the stored previous status be \<open>unknown\<close> (or absent) and let
  notification be enabled. When the probe finds the domain up, nothing is sent. When it
  finds the domain down, the downtime message goes to every subscriber. A recovery message
  is sent only when the previous status is \<open>down\<close> and the probe finds the domain up.
\<close>

theorem unknown_previous_status_notifications:
  assumes "perform_check w (dom_name d) ua net = Inr (is_up, err)"
  shows "(py_or (dom_last_status d) ''unknown'' = ''unknown'' \<longrightarrow>
            journal (snd (check_domain_record w d True ua net ts tg)) =
              journal w @
              [StatusWritten (dom_id d) (if is_up then ''up'' else ''down'') err,
               LogAppended (dom_id d) (if is_up then ''up'' else ''down'') err] @
              (if is_up then []
               else sends w (Downtime (dom_name d) (py_or err ''Unknown error'')))) \<and>
         (MessageSent chat_id (Recovery name)
            \<in> set (drop (length (journal w))
                     (journal (snd (check_domain_record w d True ua net ts tg)))) \<longrightarrow>
            py_or (dom_last_status d) ''unknown'' = ''down'' \<and> is_up)"
  unfolding check_domain_record_result[OF assms]
  by (auto simp: sends_def split: if_splits)

text \<open>
  First check of a domain, found up: the two writes and no message.
\<close>

theorem unknown_previous_status_notifications_witness:
  "journal (snd (check_domain_record (demo_world (Some ''unknown''))
      (demo_domain (Some ''unknown'')) True ''Mozilla/5.0'' (\<lambda>r. Response 200) 10 11)) =
   [StatusWritten 1 ''up'' None, LogAppended 1 ''up'' None]"
proof -
  have p: "perform_check (demo_world (Some ''unknown''))
             (dom_name (demo_domain (Some ''unknown''))) ''Mozilla/5.0'' (\<lambda>r. Response 200) =
           Inr (True, None)"
    by (rule demo_probe)
  from unknown_previous_status_notifications[OF p, where ts = 10 and tg = 11]
  show ?thesis
    by (simp add: demo_world_def demo_domain_def empty_world_def py_or_def)
qed

text \<open>
  C1 as stated fails: on the first check of a domain, found down, the subscriber is told.
  The guard of the downtime branch is \<open>previous_status != status\<close> alone; only the
  recovery branch asks for a previous \<open>down\<close>.
\<close>

theorem unknown_to_down_is_notified:
  "journal (snd (check_domain_record (demo_world (Some ''unknown''))
      (demo_domain (Some ''unknown'')) True ''Mozilla/5.0'' (\<lambda>r. Response 500) 10 11)) =
   [StatusWritten 1 ''down'' (Some ''HTTP 500''),
    LogAppended 1 ''down'' (Some ''HTTP 500''),
    MessageSent 7 (Downtime ''example.com'' ''HTTP 500'')]"
  unfolding check_domain_record_result[OF demo_probe(1)]
  by (simp add: demo_world_def demo_domain_def empty_world_def py_or_def sends_def
      list_subscribers_def)

text \<open>
  C3. When no registered domain has the normalized form of the name,
  \<open>check_domain_by_name\<close> raises its \<open>ValueError\<close> (not found) and leaves the whole
  store as it was.
\<close>

theorem check_domain_by_name_not_found:
  assumes "\<forall>r\<in>set (domains w). dom_name r \<noteq> Database_normalize_domain name"
  shows "check_domain_by_name w name ua net ts tg = (Inl ValueError_domain_not_found, w)"
proof -
  from assms have "get_domain w name = None"
    by (simp add: get_domain_def find_None_iff)
  then show ?thesis by (simp add: check_domain_by_name_def)
qed

text \<open>
  \<open>other.org\<close> is not registered in the example store.
\<close>

theorem check_domain_by_name_not_found_witness:
  "check_domain_by_name (demo_world (Some ''up'')) ''HTTPS://Other.org/'' ''Mozilla/5.0''
     (\<lambda>r. Response 200) 10 11 =
   (Inl ValueError_domain_not_found, demo_world (Some ''up''))"
proof -
  have n: "Database_normalize_domain ''HTTPS://Other.org/'' = ''other.org''" by code_simp
  have "\<forall>r\<in>set (domains (demo_world (Some ''up''))).
          dom_name r \<noteq> Database_normalize_domain ''HTTPS://Other.org/''"
    unfolding n by (simp add: demo_world_def demo_domain_def)
  from check_domain_by_name_not_found[OF this] show ?thesis .
qed

text \<open>
  C10. Whenever the probe returns, it returns up exactly when it returns no error. So a
  check that finds the domain up stores \<open>last_status = up\<close> with a null \<open>last_error\<close>,
  and a check that finds it down stores \<open>last_status = down\<close> with an error string, in
  the row with the record's id, which exists when the record is in the store.
\<close>

theorem check_stores_error_iff_down:
  assumes "perform_check w (dom_name d) ua net = Inr (is_up, err)"
  shows "(is_up \<longleftrightarrow> err = None) \<and>
         fst (check_domain_record w d notify ua net ts tg) = Inr (is_up, err) \<and>
         (\<forall>r\<in>set (domains (snd (check_domain_record w d notify ua net ts tg))).
            dom_id r = dom_id d \<longrightarrow>
              dom_last_error r = err \<and>
              (if is_up then dom_last_status r = Some ''up'' \<and> dom_last_error r = None
               else dom_last_status r = Some ''down'' \<and> dom_last_error r \<noteq> None)) \<and>
         (d \<in> set (domains w) \<longrightarrow>
            (\<exists>r\<in>set (domains (snd (check_domain_record w d notify ua net ts tg))).
               dom_id r = dom_id d))"
proof -
  have iff: "is_up \<longleftrightarrow> err = None" using assms by (rule perform_check_up_iff_no_error)
  have dm: "domains (snd (check_domain_record w d notify ua net ts tg)) =
      map (\<lambda>r. if dom_id r = dom_id d
                then r\<lparr>dom_last_status := Some (if is_up then ''up'' else ''down''),
                       dom_last_error := err, dom_last_checked := Some ts\<rparr>
                else r) (domains w)"
    by (simp add: check_domain_record_result[OF assms])
  have a: "fst (check_domain_record w d notify ua net ts tg) = Inr (is_up, err)"
    by (simp add: check_domain_record_result[OF assms])
  have b: "\<forall>r\<in>set (domains (snd (check_domain_record w d notify ua net ts tg))).
            dom_id r = dom_id d \<longrightarrow>
              dom_last_error r = err \<and>
              (if is_up then dom_last_status r = Some ''up'' \<and> dom_last_error r = None
               else dom_last_status r = Some ''down'' \<and> dom_last_error r \<noteq> None)"
    unfolding dm using iff by auto
  have c: "d \<in> set (domains w) \<longrightarrow>
            (\<exists>r\<in>set (domains (snd (check_domain_record w d notify ua net ts tg))).
               dom_id r = dom_id d)"
  proof
    let ?f = "\<lambda>r. if dom_id r = dom_id d
                then r\<lparr>dom_last_status := Some (if is_up then ''up'' else ''down''),
                       dom_last_error := err, dom_last_checked := Some ts\<rparr>
                else r"
    assume "d \<in> set (domains w)"
    then have "?f d \<in> set (map ?f (domains w))" unfolding set_map by (rule imageI)
    moreover have "dom_id (?f d) = dom_id d" by simp
    ultimately show "\<exists>r\<in>set (domains (snd (check_domain_record w d notify ua net ts tg))).
               dom_id r = dom_id d"
      unfolding dm by (rule bexI[rotated])
  qed
  from iff a b c show ?thesis by blast
qed

text \<open>
  A registered domain that answers 500 is stored as down with the error \<open>HTTP 500\<close>.
\<close>

theorem check_stores_error_iff_down_witness:
  "\<exists>r\<in>set (domains (snd (check_domain_record (demo_world (Some ''up''))
        (demo_domain (Some ''up'')) False ''Mozilla/5.0'' (\<lambda>r. Response 500) 10 11))).
      dom_id r = 1 \<and> dom_last_status r = Some ''down'' \<and>
      dom_last_error r = Some ''HTTP 500''"
proof -
  have p: "perform_check (demo_world (Some ''up'')) (dom_name (demo_domain (Some ''up'')))
             ''Mozilla/5.0'' (\<lambda>r. Response 500) = Inr (False, Some ''HTTP 500'')"
    by (rule demo_probe)
  have m: "demo_domain (Some ''up'') \<in> set (domains (demo_world (Some ''up'')))"
    by (simp add: demo_world_def)
  have i: "dom_id (demo_domain (Some ''up'')) = 1" by (simp add: demo_domain_def)
  from check_stores_error_iff_down[OF p, where notify = False and ts = 10 and tg = 11] m
  show ?thesis unfolding i by fastforce
qed

section \<open>Claims on the proxy pool\<close>

lemma first_max_None: "(first_max lt ps = None) = (ps = [])"
  by (cases ps) (auto split: option.splits)

lemma first_max_mem: "first_max lt ps = Some q \<Longrightarrow> q \<in> set ps"
  by (induction ps arbitrary: q) (auto split: option.splits if_splits)

lemma newest_max:
  "newest ps = Some q \<Longrightarrow> p \<in> set ps \<Longrightarrow> prx_created_at p \<le> prx_created_at q"
  unfolding newest_def
  by (induction ps arbitrary: q) (fastforce split: option.splits if_splits simp: first_max_None)+

lemma newest_mem: "newest ps = Some q \<Longrightarrow> q \<in> set ps"
  unfolding newest_def by (rule first_max_mem)

lemma at_most_one:
  assumes "distinct (map f xs)" and "\<forall>x\<in>set xs. \<forall>y\<in>set xs. f x = f y"
  shows "length xs \<le> 1"
proof (cases xs)
  case Nil then show ?thesis by simp
next
  case (Cons a as)
  show ?thesis
  proof (cases as)
    case Nil with Cons show ?thesis by simp
  next
    case (Cons b bs)
    with \<open>xs = a # as\<close> assms show ?thesis by auto
  qed
qed

lemma latest_count:
  fixes f :: "'a \<Rightarrow> nat"
  assumes d: "distinct (map f ps)"
    and a: "\<forall>p\<in>set ps. P p = (\<forall>q\<in>set ps. f q \<le> f p)"
  shows "length (filter P ps) \<le> 1 \<and> (ps \<noteq> [] \<longrightarrow> length (filter P ps) = 1)"
proof -
  have d': "distinct (map f (filter P ps))" using d by (rule distinct_map_filter)
  have "\<forall>x\<in>set (filter P ps). \<forall>y\<in>set (filter P ps). f x = f y"
    using a by (auto intro: antisym)
  with d' have le: "length (filter P ps) \<le> 1" by (rule at_most_one)
  have "ps \<noteq> [] \<longrightarrow> filter P ps \<noteq> []"
  proof
    assume ne: "ps \<noteq> []"
    then have "Max (f ` set ps) \<in> f ` set ps" by (intro Max_in) auto
    then obtain p where p: "p \<in> set ps" and m: "f p = Max (f ` set ps)" by auto
    have "\<forall>q\<in>set ps. f q \<le> f p" unfolding m by (auto intro: Max_ge)
    with a p have "P p" by blast
    with p show "filter P ps \<noteq> []" by (auto simp: filter_empty_conv)
  qed
  with le show ?thesis by (cases "filter P ps") auto
qed

lemma proxy_pool_ok_count:
  assumes "proxy_pool_ok w"
  shows "length (active_proxies w) \<le> 1 \<and>
         (proxies w \<noteq> [] \<longrightarrow> length (active_proxies w) = 1)"
  unfolding active_proxies_def
  using assms latest_count[of prx_created_at "proxies w" "\<lambda>p. prx_is_active p = 1"]
  by (simp add: proxy_pool_ok_def)

lemma add_proxy_ok:
  assumes ok: "proxy_pool_ok w" and late: "\<forall>p\<in>set (proxies w). prx_created_at p < now"
  shows "proxy_pool_ok (snd (add_proxy w host port username password country now))"
proof -
  have "\<forall>p\<in>set (proxies w). prx_id p \<noteq> proxies_seq w + 1"
    using ok by (fastforce simp: proxy_pool_ok_def)
  moreover have "\<forall>p\<in>set (proxies w). prx_created_at p \<noteq> now" using late by fastforce
  moreover have "\<forall>p\<in>set (proxies w). \<not> now \<le> prx_created_at p" using late by fastforce
  ultimately show ?thesis
    using ok late
    by (auto simp: proxy_pool_ok_def add_proxy_def Let_def comp_def image_iff less_imp_le)
qed

lemma add_proxy_times:
  "prx_created_at ` set (proxies (snd (add_proxy w host port username password country now))) =
   insert now (prx_created_at ` set (proxies w))"
  by (auto simp: add_proxy_def Let_def image_iff)

lemma remove_proxy_times:
  "prx_created_at ` set (proxies (snd (remove_proxy w i))) \<subseteq> prx_created_at ` set (proxies w)"
  by (auto simp: remove_proxy_def Let_def image_iff split: option.splits if_splits)

lemma remove_proxy_ok:
  assumes ok: "proxy_pool_ok w"
  shows "proxy_pool_ok (snd (remove_proxy w i))"
proof -
  define ps where "ps = proxies w"
  define rem where "rem = filter (\<lambda>p. prx_id p \<noteq> i) ps"
  have di: "distinct (map prx_id ps)" and dt: "distinct (map prx_created_at ps)"
    and sq: "\<forall>p\<in>set ps. prx_id p \<le> proxies_seq w"
    and ac: "\<forall>p\<in>set ps. (prx_is_active p = 1) = (\<forall>q\<in>set ps. prx_created_at q \<le> prx_created_at p)"
    using ok by (simp_all add: proxy_pool_ok_def ps_def)
  have sub: "set rem \<subseteq> set ps" by (auto simp: rem_def)
  have di': "distinct (map prx_id rem)" unfolding rem_def using di by (rule distinct_map_filter)
  have dt': "distinct (map prx_created_at rem)"
    unfolding rem_def using dt by (rule distinct_map_filter)
  show ?thesis
  proof (cases "length ps - length rem > 0")
    case False
    then show ?thesis using ok by (simp add: remove_proxy_def Let_def ps_def rem_def)
  next
    case True
    note gone = this
    show ?thesis
    proof (cases "newest rem")
      case None
      then have "rem = []" by (simp add: newest_def first_max_None)
      then show ?thesis using gone None
        by (simp add: remove_proxy_def Let_def ps_def[symmetric] rem_def[symmetric]
            proxy_pool_ok_def)
    next
      case (Some q)
      define g :: "proxy_row \<Rightarrow> proxy_row" where "g = (\<lambda>p. if prx_id p = prx_id q then p\<lparr>prx_is_active := 1\<rparr> else p)"
      have res: "proxies (snd (remove_proxy w i)) = map g rem"
        using gone Some
        by (simp add: remove_proxy_def Let_def ps_def[symmetric] rem_def[symmetric] g_def)
      have sq': "proxies_seq (snd (remove_proxy w i)) = proxies_seq w"
        using gone by (simp add: remove_proxy_def Let_def ps_def[symmetric] rem_def[symmetric])
      have gid: "map prx_id (map g rem) = map prx_id rem" by (simp add: g_def comp_def)
      have gts: "map prx_created_at (map g rem) = map prx_created_at rem"
        by (simp add: g_def comp_def)
      have gt: "\<And>p. prx_created_at (g p) = prx_created_at p" by (simp add: g_def)
      have qm: "q \<in> set rem" using Some by (rule newest_mem)
      have qmax: "\<And>p. p \<in> set rem \<Longrightarrow> prx_created_at p \<le> prx_created_at q"
        using Some by (rule newest_max)
      have inj_t: "\<And>p. p \<in> set rem \<Longrightarrow> prx_created_at p = prx_created_at q \<Longrightarrow> p = q"
        using dt' qm by (meson distinct_map inj_onD)
      have inj_i: "\<And>p. p \<in> set rem \<Longrightarrow> prx_id p = prx_id q \<Longrightarrow> p = q"
        using di' qm by (meson distinct_map inj_onD)
      have top: "\<And>p. p \<in> set rem \<Longrightarrow>
          (\<forall>x\<in>set rem. prx_created_at x \<le> prx_created_at p) = (p = q)"
        using qm qmax inj_t by (metis antisym)
      have act: "\<And>p. p \<in> set rem \<Longrightarrow> (prx_is_active (g p) = 1) = (p = q)"
      proof -
        fix p assume p: "p \<in> set rem"
        show "(prx_is_active (g p) = 1) = (p = q)"
        proof (cases "prx_id p = prx_id q")
          case True
          then have "p = q" using p by (rule inj_i[rotated])
          then show ?thesis by (simp add: g_def)
        next
          case False
          then have ne: "p \<noteq> q" by auto
          have "prx_is_active p \<noteq> 1"
          proof
            assume "prx_is_active p = 1"
            with ac p sub have "\<forall>x\<in>set ps. prx_created_at x \<le> prx_created_at p" by blast
            with sub have "\<forall>x\<in>set rem. prx_created_at x \<le> prx_created_at p" by blast
            with top[OF p] ne show False by simp
          qed
          with False ne show ?thesis by (simp add: g_def)
        qed
      qed
      have "\<forall>p\<in>set (map g rem).
              (prx_is_active p = 1) = (\<forall>x\<in>set (map g rem). prx_created_at x \<le> prx_created_at p)"
        using act top by (simp add: gt)
      moreover have "\<forall>p\<in>set (map g rem). prx_id p \<le> proxies_seq w"
        using sq sub by (fastforce simp: g_def)
      ultimately show ?thesis
        unfolding proxy_pool_ok_def res sq' gid gts using di' dt' by blast
    qed
  qed
qed

lemma run_proxy_ops_ok:
  assumes "proxy_pool_ok w"
    and "\<forall>p\<in>set (proxies w). \<forall>t\<in>set (add_times ops). prx_created_at p < t"
    and "sorted_wrt (<) (add_times ops)"
  shows "proxy_pool_ok (run_proxy_ops w ops)"
  using assms
proof (induction ops arbitrary: w)
  case Nil
  then show ?case by (simp add: run_proxy_ops_def)
next
  case (Cons op ops)
  show ?case
  proof (cases op)
    case (AddProxy host port username password country now)
    let ?w = "snd (add_proxy w host port username password country now)"
    have late: "\<forall>p\<in>set (proxies w). prx_created_at p < now"
      using Cons.prems(2) AddProxy by simp
    have ok: "proxy_pool_ok ?w" using Cons.prems(1) late by (rule add_proxy_ok)
    have "\<forall>p\<in>set (proxies ?w). \<forall>t\<in>set (add_times ops). prx_created_at p < t"
    proof (intro ballI)
      fix p t assume p: "p \<in> set (proxies ?w)" and t: "t \<in> set (add_times ops)"
      from p have "prx_created_at p \<in> insert now (prx_created_at ` set (proxies w))"
        using add_proxy_times[of w host port username password country now] by blast
      then show "prx_created_at p < t"
        using t Cons.prems(2,3) AddProxy by auto
    qed
    moreover have "sorted_wrt (<) (add_times ops)" using Cons.prems(3) AddProxy by simp
    ultimately have "proxy_pool_ok (run_proxy_ops ?w ops)" using ok Cons.IH by blast
    then show ?thesis using AddProxy by (simp add: run_proxy_ops_def)
  next
    case (RemoveProxy i)
    let ?w = "snd (remove_proxy w i)"
    have ok: "proxy_pool_ok ?w" using Cons.prems(1) by (rule remove_proxy_ok)
    have "\<forall>p\<in>set (proxies ?w). \<forall>t\<in>set (add_times ops). prx_created_at p < t"
    proof (intro ballI)
      fix p t assume p: "p \<in> set (proxies ?w)" and t: "t \<in> set (add_times ops)"
      from p have "prx_created_at p \<in> prx_created_at ` set (proxies w)"
        using remove_proxy_times[of w i] by blast
      then show "prx_created_at p < t"
        using t Cons.prems(2) RemoveProxy by auto
    qed
    moreover have "sorted_wrt (<) (add_times ops)" using Cons.prems(3) RemoveProxy by simp
    ultimately have "proxy_pool_ok (run_proxy_ops ?w ops)" using ok Cons.IH by blast
    then show ?thesis using RemoveProxy by (simp add: run_proxy_ops_def)
  qed
qed

text \<open>
  C7 (amended). Start from the empty pool and run any finite sequence of \<open>add_proxy\<close>
  and \<open>remove_proxy\<close> calls in which each \<open>add_proxy\<close> reads a later clock value than
  the one before it. Then at most one proxy is active, and exactly one when the pool is
  not empty.
\<close>

theorem single_active_proxy:
  assumes "sorted_wrt (<) (add_times ops)"
  shows "length (active_proxies (run_proxy_ops empty_world ops)) \<le> 1 \<and>
         (proxies (run_proxy_ops empty_world ops) \<noteq> [] \<longrightarrow>
            length (active_proxies (run_proxy_ops empty_world ops)) = 1)"
proof -
  have "proxy_pool_ok empty_world" by (simp add: proxy_pool_ok_def empty_world_def)
  moreover have "\<forall>p\<in>set (proxies empty_world). \<forall>t\<in>set (add_times ops). prx_created_at p < t"
    by (simp add: empty_world_def)
  ultimately have "proxy_pool_ok (run_proxy_ops empty_world ops)"
    using assms by (rule run_proxy_ops_ok)
  then show ?thesis by (rule proxy_pool_ok_count)
qed

text \<open>
  Three proxies added at the times 1, 2, 3 and the last one removed: one active proxy.
\<close>

theorem single_active_proxy_witness:
  "length (active_proxies (run_proxy_ops empty_world
     [AddProxy ''10.0.0.1'' 8080 None None None 1,
      AddProxy ''10.0.0.2'' 8080 None None (Some ''turkey'') 2,
      AddProxy ''10.0.0.3'' 8080 None None None 3, RemoveProxy 3])) = 1"
proof -
  let ?ops = "[AddProxy ''10.0.0.1'' 8080 None None None 1,
      AddProxy ''10.0.0.2'' 8080 None None (Some ''turkey'') 2,
      AddProxy ''10.0.0.3'' 8080 None None None 3, RemoveProxy 3]"
  have s: "sorted_wrt (<) (add_times ?ops)" by simp
  have n: "proxies (run_proxy_ops empty_world ?ops) \<noteq> []" by code_simp
  from single_active_proxy[OF s] n show ?thesis by blast
qed

text \<open>
  C7 as stated fails without the condition on the clock: \<open>remove_proxy\<close> activates the
  row with the latest \<open>created_at\<close> and deactivates none. With the creation times 3, 2, 1
  proxy 3 is active after the third \<open>add_proxy\<close>; removing proxy 1 then activates proxy 2
  as well.
\<close>

theorem two_active_proxies_when_clock_steps_back:
  "map prx_id (active_proxies (run_proxy_ops empty_world
     [AddProxy ''10.0.0.1'' 8080 None None None 3,
      AddProxy ''10.0.0.2'' 8080 None None None 2,
      AddProxy ''10.0.0.3'' 8080 None None None 1, RemoveProxy 1])) = [2, 3]"
  by code_simp

end
